theory Spec2Isabelle
  imports Complex_Main
begin

section \<open>DOM elements held by reference\<close>

text \<open>
  The components keep references to single DOM elements and read or write their class
  list, their attributes and two layout numbers. A \<open>DOMTokenList\<close> is an ordered set of
  tokens: \<open>add\<close> appends a token that is not there yet, \<open>remove\<close> deletes it.
  The layout numbers are finite JavaScript numbers, which are real numbers.
\<close>

record element =
  classList :: "string list"
  attributes :: "string \<rightharpoonup> string"
  offsetHeight :: int
  boundingTop :: real

definition classList_add :: "string \<Rightarrow> element \<Rightarrow> element" where
  "classList_add c e =
     e\<lparr>classList := (if c \<in> set (classList e) then classList e else classList e @ [c])\<rparr>"

definition classList_remove :: "string \<Rightarrow> element \<Rightarrow> element" where
  "classList_remove c e = e\<lparr>classList := removeAll c (classList e)\<rparr>"

definition classList_contains :: "string \<Rightarrow> element \<Rightarrow> bool" where
  "classList_contains c e = (c \<in> set (classList e))"

definition setAttribute :: "string \<Rightarrow> string \<Rightarrow> element \<Rightarrow> element" where
  "setAttribute k v e = e\<lparr>attributes := (attributes e)(k \<mapsto> v)\<rparr>"

definition getAttribute :: "string \<Rightarrow> element \<Rightarrow> string option" where
  "getAttribute k e = attributes e k"

section \<open>JavaScript numbers\<close>

text \<open>
  A JavaScript number is an IEEE-754 double. The finite doubles are real numbers, and the
  layout offsets the browser hands to the code (\<open>getBoundingClientRect().top\<close>,
  \<open>window.pageYOffset\<close>, \<open>offsetHeight\<close>) are finite. \<open>+\<close> and \<open>-\<close> compute the exact
  result and round it to the nearest double, ties to the even significand: 53 significant
  bits in the binade \<open>2^e \<le> |x| < 2^(e+1)\<close> for \<open>-1022 \<le> e \<le> 1023\<close>, multiples of
  \<open>2^-1074\<close> below that, and an infinity when the rounded magnitude reaches \<open>2^1024\<close>.
\<close>

datatype js_number = Finite real | PosInfinity | NegInfinity

fun bit_length :: "nat \<Rightarrow> nat" where
  "bit_length n = (if n = 0 then 0 else Suc (bit_length (n div 2)))"

declare bit_length.simps [simp del]

definition pow2 :: "int \<Rightarrow> real" where
  "pow2 k = (if 0 \<le> k then 2 ^ nat k else 1 / 2 ^ nat (- k))"

text \<open>The exponent \<open>e\<close> with \<open>2^e \<le> |x| < 2^(e+1)\<close>, for \<open>x \<noteq> 0\<close>.\<close>

definition binade :: "real \<Rightarrow> int" where
  "binade x =
     (let a = \<bar>x\<bar> in
      if 1 \<le> a then int (bit_length (nat \<lfloor>a\<rfloor>)) - 1
      else (let b = int (bit_length (nat \<lfloor>1 / a\<rfloor>))
            in if a * 2 ^ nat (b - 1) = 1 then - (b - 1) else - b))"

definition round_half_even :: "real \<Rightarrow> int" where
  "round_half_even x =
     (let f = \<lfloor>x\<rfloor>; r = x - of_int f
      in if r < 1 / 2 then f else if 1 / 2 < r then f + 1 else if even f then f else f + 1)"

definition round_to_double :: "real \<Rightarrow> js_number" where
  "round_to_double x =
     (if x = 0 then Finite 0
      else (let e = binade x;
                q = pow2 (max e (- 1022) - 52);
                n = round_half_even (x / q)
            in if 1023 < e \<or> (e = 1023 \<and> \<bar>n\<bar> = 9007199254740992)
               then (if 0 < x then PosInfinity else NegInfinity)
               else Finite (of_int n * q)))"

definition js_add :: "real \<Rightarrow> real \<Rightarrow> js_number" where
  "js_add x y = round_to_double (x + y)"

fun js_sub :: "js_number \<Rightarrow> real \<Rightarrow> js_number" where
  "js_sub (Finite x) y = round_to_double (x - y)"
| "js_sub PosInfinity y = PosInfinity"
| "js_sub NegInfinity y = NegInfinity"

section \<open>Navigation component\<close>

text \<open>
  The module variables of \<open>Navigation\<close> (\<open>header\<close>, \<open>mobileMenuBtn\<close>, \<open>mobileMenuClose\<close>,
  \<open>mobileMenu\<close>, \<open>isMenuOpen\<close>, \<open>lastScrollY\<close>) together with the parts of the browser
  the component touches: \<open>document.body.style.overflow\<close>, \<open>window.scrollY\<close> (the same
  number as \<open>window.pageYOffset\<close>), the calls of \<open>window.scrollTo\<close>, the session history
  and the queue of animation-frame callbacks. An element variable is \<open>None\<close> when
  \<open>getElementById\<close> returned \<open>null\<close>. The four ids differ, so the four references never
  alias.
\<close>

datatype raf_callback = UpdateHeaderOnScroll

record session_history =
  back_entries :: "string list"
  current_entry :: string
  forward_entries :: "string list"

record nav =
  header :: "element option"
  mobileMenuBtn :: "element option"
  mobileMenuClose :: "element option"
  mobileMenu :: "element option"
  isMenuOpen :: bool
  lastScrollY :: real
  body_overflow :: string
  scrollY :: real
  scrollTo_calls :: "(js_number \<times> string) list"
  history :: session_history
  raf_queue :: "raf_callback list"

text \<open>\<open>updateMenuState\<close>: returns at once when the panel or the button is missing.\<close>

definition updateMenuState :: "nav \<Rightarrow> nav" where
  "updateMenuState s =
     (case (mobileMenu s, mobileMenuBtn s) of
        (Some m, Some b) \<Rightarrow>
          if isMenuOpen s
          then s\<lparr>mobileMenu := Some (classList_add ''open'' m),
                 mobileMenuBtn := Some (setAttribute ''aria-expanded'' ''true'' b),
                 body_overflow := ''hidden''\<rparr>
          else s\<lparr>mobileMenu := Some (classList_remove ''open'' m),
                 mobileMenuBtn := Some (setAttribute ''aria-expanded'' ''false'' b),
                 body_overflow := ''''\<rparr>
      | _ \<Rightarrow> s)"

definition toggleMobileMenu :: "nav \<Rightarrow> nav" where
  "toggleMobileMenu s = updateMenuState (s\<lparr>isMenuOpen := \<not> isMenuOpen s\<rparr>)"

definition closeMobileMenu :: "nav \<Rightarrow> nav" where
  "closeMobileMenu s =
     (if isMenuOpen s then updateMenuState (s\<lparr>isMenuOpen := False\<rparr>) else s)"

text \<open>\<open>getState\<close> returns the object \<open>{isMenuOpen, scrollY: lastScrollY}\<close>.\<close>

definition getState :: "nav \<Rightarrow> bool \<times> real" where
  "getState s = (isMenuOpen s, lastScrollY s)"

text \<open>\<open>updateHeaderOnScroll\<close>, with \<open>scrollThreshold = 100\<close>.\<close>

definition updateHeaderOnScroll :: "nav \<Rightarrow> nav" where
  "updateHeaderOnScroll s =
     (case header s of
        None \<Rightarrow> s
      | Some h \<Rightarrow>
          (if scrollY s > 100
           then s\<lparr>header := Some (classList_add ''bg-white/95''
                                   (classList_remove ''bg-white/70''
                                     (classList_add ''shadow-md'' h)))\<rparr>
           else s\<lparr>header := Some (classList_remove ''bg-white/95''
                                   (classList_add ''bg-white/70''
                                     (classList_remove ''shadow-md'' h)))\<rparr>)
          \<lparr>lastScrollY := scrollY s\<rparr>)"

text \<open>
  The two header styles as they read off the class list: elevated and opaque
  (\<open>shadow-md\<close>, \<open>bg-white/95\<close>), or flat and translucent (\<open>bg-white/70\<close>).
\<close>

definition elevated_style :: "element \<Rightarrow> bool" where
  "elevated_style h =
     (classList_contains ''shadow-md'' h \<and> classList_contains ''bg-white/95'' h
      \<and> \<not> classList_contains ''bg-white/70'' h)"

definition flat_style :: "element \<Rightarrow> bool" where
  "flat_style h =
     (\<not> classList_contains ''shadow-md'' h \<and> classList_contains ''bg-white/70'' h
      \<and> \<not> classList_contains ''bg-white/95'' h)"

definition header_is :: "(element \<Rightarrow> bool) \<Rightarrow> nav \<Rightarrow> bool" where
  "header_is P s = (case header s of None \<Rightarrow> False | Some h \<Rightarrow> P h)"

text \<open>
  \<open>handleSmoothScroll\<close>. A document is the list of its elements together with the answers
  of \<open>document.querySelector\<close>: an exception when the string is not a valid selector,
  \<open>null\<close> when nothing matches, the first match otherwise. The handler returns the
  exception that escaped it (if any), the event and the new state.
\<close>

datatype js_exception = SyntaxError | TypeError

record document =
  all_elements :: "element list"
  document_querySelector :: "string \<Rightarrow> js_exception + element option"

text \<open>
  The target of an in-page link in the sense of HTML: an element whose id is the href
  without its leading \<open>#\<close>.
\<close>

definition target_id_exists :: "document \<Rightarrow> string \<Rightarrow> bool" where
  "target_id_exists doc href =
     list_ex (\<lambda>e. getAttribute ''id'' e = Some (drop 1 href)) (all_elements doc)"

record click_event =
  currentTarget_href :: "string option"
  defaultPrevented :: bool

definition startsWith :: "string \<Rightarrow> string \<Rightarrow> bool" where
  "startsWith p str = (take (length p) str = p)"

definition pushState :: "string \<Rightarrow> session_history \<Rightarrow> session_history" where
  "pushState url h =
     \<lparr>back_entries = back_entries h @ [current_entry h], current_entry = url,
      forward_entries = []\<rparr>"

definition headerHeight :: "nav \<Rightarrow> real" where
  "headerHeight s = (case header s of Some h \<Rightarrow> real_of_int (offsetHeight h) | None \<Rightarrow> 0)"

definition handleSmoothScroll ::
  "document \<Rightarrow> click_event \<Rightarrow> nav \<Rightarrow> js_exception option \<times> click_event \<times> nav" where
  "handleSmoothScroll doc ev s =
     (case currentTarget_href ev of
        None \<Rightarrow> (None, ev, s)
      | Some href \<Rightarrow>
          if href \<noteq> [] \<and> startsWith ''#'' href \<and> length href > 1
          then (case document_querySelector doc href of
                  Inl ex \<Rightarrow> (Some ex, ev, s)
                | Inr None \<Rightarrow> (None, ev, s)
                | Inr (Some targetElement) \<Rightarrow>
                    (let targetPosition =
                           js_sub (js_add (boundingTop targetElement) (scrollY s)) (headerHeight s)
                     in (None, ev\<lparr>defaultPrevented := True\<rparr>,
                         s\<lparr>scrollTo_calls := scrollTo_calls s @ [(targetPosition, ''smooth'')],
                           history := pushState href (history s)\<rparr>)))
          else (None, ev, s))"

text \<open>
  \<open>handleScroll\<close> hands \<open>updateHeaderOnScroll\<close> to \<open>requestAnimationFrame\<close>. A frame
  runs the callbacks that were queued before it, in order, and reports which ones it ran.
\<close>

definition handleScroll :: "nav \<Rightarrow> nav" where
  "handleScroll s = s\<lparr>raf_queue := raf_queue s @ [UpdateHeaderOnScroll]\<rparr>"

fun run_callback :: "raf_callback \<Rightarrow> nav \<Rightarrow> nav" where
  "run_callback UpdateHeaderOnScroll s = updateHeaderOnScroll s"

definition animationFrame :: "nav \<Rightarrow> raf_callback list \<times> nav" where
  "animationFrame s = (raf_queue s, fold run_callback (raf_queue s) (s\<lparr>raf_queue := []\<rparr>))"

definition recomputations_in_frame :: "nav \<Rightarrow> nat" where
  "recomputations_in_frame s =
     length (filter (\<lambda>c. c = UpdateHeaderOnScroll) (fst (animationFrame s)))"

subsection \<open>Menu actions and the two-state machine\<close>

datatype menu_action = Toggle | Close

fun menu_step :: "menu_action \<Rightarrow> nav \<Rightarrow> nav" where
  "menu_step Toggle s = toggleMobileMenu s"
| "menu_step Close s = closeMobileMenu s"

definition run_menu :: "menu_action list \<Rightarrow> nav \<Rightarrow> nav" where
  "run_menu acts s = fold menu_step acts s"

text \<open>
  The machine of the specification: two states, \<open>toggle\<close> flips, \<open>close\<close> forces closed;
  and the DOM state each logical state determines (open marker on the panel,
  \<open>aria-expanded\<close> on the button, body scroll lock).
\<close>

datatype menu_state = MenuClosed | MenuOpen

fun spec_step :: "menu_action \<Rightarrow> menu_state \<Rightarrow> menu_state" where
  "spec_step Toggle MenuClosed = MenuOpen"
| "spec_step Toggle MenuOpen = MenuClosed"
| "spec_step Close _ = MenuClosed"

definition spec_replay :: "menu_action list \<Rightarrow> menu_state" where
  "spec_replay acts = fold spec_step acts MenuClosed"

fun spec_dom :: "menu_state \<Rightarrow> bool \<times> string option \<times> string" where
  "spec_dom MenuOpen = (True, Some ''true'', ''hidden'')"
| "spec_dom MenuClosed = (False, Some ''false'', [])"

definition menu_dom :: "nav \<Rightarrow> bool \<times> string option \<times> string" where
  "menu_dom s =
     ((case mobileMenu s of None \<Rightarrow> False | Some m \<Rightarrow> classList_contains ''open'' m),
      (case mobileMenuBtn s of None \<Rightarrow> None | Some b \<Rightarrow> getAttribute ''aria-expanded'' b),
      body_overflow s)"

definition logical_state :: "nav \<Rightarrow> menu_state" where
  "logical_state s = (if isMenuOpen s then MenuOpen else MenuClosed)"

text \<open>
  The DOM agrees with the flag: both elements exist and the three DOM facts are the ones
  the logical state determines.
\<close>

definition menu_synced :: "nav \<Rightarrow> bool" where
  "menu_synced s =
     (mobileMenu s \<noteq> None \<and> mobileMenuBtn s \<noteq> None \<and> menu_dom s = spec_dom (logical_state s))"

text \<open>A run of anchor clicks; an exception that escapes one handler does not stop the next click.\<close>

definition click_links :: "document \<Rightarrow> click_event list \<Rightarrow> nav \<Rightarrow> nav" where
  "click_links doc evs s = fold (\<lambda>ev s'. snd (snd (handleSmoothScroll doc ev s'))) evs s"

subsection \<open>Example pages\<close>

definition plain_element :: element where
  "plain_element = \<lparr>classList = [], attributes = Map.empty, offsetHeight = 64, boundingTop = 0\<rparr>"

definition closed_button :: element where
  "closed_button = setAttribute ''aria-expanded'' ''false'' plain_element"

definition fresh_history :: session_history where
  "fresh_history = \<lparr>back_entries = [], current_entry = ''/'', forward_entries = []\<rparr>"

text \<open>A page with header, button and panel, the menu closed, not scrolled.\<close>

definition full_page :: nav where
  "full_page =
     \<lparr>header = Some plain_element, mobileMenuBtn = Some closed_button,
      mobileMenuClose = None, mobileMenu = Some plain_element, isMenuOpen = False,
      lastScrollY = 0, body_overflow = [], scrollY = 0, scrollTo_calls = [],
      history = fresh_history, raf_queue = []\<rparr>"

text \<open>The same page without the element of id \<open>mobile-menu\<close>.\<close>

definition page_without_panel :: nav where
  "page_without_panel = full_page\<lparr>mobileMenu := None\<rparr>"

text \<open>
  Three documents, each with the answers of \<open>document.querySelector\<close> at the hrefs that
  are clicked on it. The first holds one section of id \<open>about\<close>, 900 pixels below the
  viewport top. The second holds that section with a paragraph inside it: the selector
  \<open>#about p\<close> finds the paragraph, and no element has the id \<open>about p\<close>. The third holds
  a section of id \<open>1abc\<close>: \<open>#1abc\<close> is not a valid selector (an identifier does not
  start with a digit) and the lookup throws.
\<close>

definition about_section :: element where
  "about_section = setAttribute ''id'' ''about'' (plain_element\<lparr>boundingTop := 900\<rparr>)"

definition about_doc :: document where
  "about_doc =
     \<lparr>all_elements = [about_section],
      document_querySelector =
        (\<lambda>sel. if sel = ''#about'' then Inr (Some about_section) else Inr None)\<rparr>"

definition about_paragraph :: element where
  "about_paragraph = plain_element\<lparr>boundingTop := 950\<rparr>"

definition descendant_doc :: document where
  "descendant_doc =
     \<lparr>all_elements = [about_section, about_paragraph],
      document_querySelector =
        (\<lambda>sel. if sel = ''#about'' then Inr (Some about_section)
               else if sel = ''#about p'' then Inr (Some about_paragraph)
               else Inr None)\<rparr>"

definition digit_section :: element where
  "digit_section = setAttribute ''id'' ''1abc'' (plain_element\<lparr>boundingTop := 900\<rparr>)"

definition digit_id_doc :: document where
  "digit_id_doc =
     \<lparr>all_elements = [digit_section],
      document_querySelector =
        (\<lambda>sel. if sel = ''#1abc'' then Inl SyntaxError else Inr None)\<rparr>"

section \<open>DOM trees\<close>

text \<open>
  \<open>ScrollAnimations\<close> and \<open>FormHandler\<close> search subtrees. A node carries an identity (two
  references are the same element when the ids are equal), its class tokens, its text
  and its children in document order. \<open>descendants\<close> lists the proper descendants in
  document order, which is the order of \<open>querySelectorAll\<close>.
\<close>

datatype node = Node (node_id: nat) (node_classes: "string list") (node_text: string)
  (childNodes: "node list")

fun descendants :: "node \<Rightarrow> node list"
  and descendants_list :: "node list \<Rightarrow> node list" where
  "descendants (Node i cs txt ch) = descendants_list ch"
| "descendants_list [] = []"
| "descendants_list (c # rest) = c # descendants c @ descendants_list rest"

definition matches_class :: "string \<Rightarrow> node \<Rightarrow> bool" where
  "matches_class c n = (c \<in> set (node_classes n))"

definition querySelectorAll :: "string \<Rightarrow> node \<Rightarrow> node list" where
  "querySelectorAll c n = filter (matches_class c) (descendants n)"

definition querySelector :: "string \<Rightarrow> node \<Rightarrow> node option" where
  "querySelector c n = (case querySelectorAll c n of [] \<Rightarrow> None | m # _ \<Rightarrow> Some m)"

text \<open>\<open>Element.remove()\<close>: the element of that identity leaves its parent, with its subtree.\<close>

fun remove_node :: "nat \<Rightarrow> node \<Rightarrow> node"
  and remove_list :: "nat \<Rightarrow> node list \<Rightarrow> node list" where
  "remove_node i (Node j cs txt ch) = Node j cs txt (remove_list i ch)"
| "remove_list i [] = []"
| "remove_list i (c # rest) =
     (if node_id c = i then remove_list i rest else remove_node i c # remove_list i rest)"

fun appendChild :: "node \<Rightarrow> node \<Rightarrow> node" where
  "appendChild new (Node j cs txt ch) = Node j cs txt (ch @ [new])"

text \<open>\<open>parentElement\<close> of the element with identity \<open>i\<close> inside \<open>tree\<close>.\<close>

definition parentElement :: "node \<Rightarrow> nat \<Rightarrow> node option" where
  "parentElement tree i =
     find (\<lambda>p. i \<in> set (map node_id (childNodes p))) (tree # descendants tree)"

text \<open>\<open>Array.prototype.indexOf\<close>: the first index, or \<open>-1\<close>.\<close>

fun indexOf :: "'a list \<Rightarrow> 'a \<Rightarrow> int" where
  "indexOf [] x = - 1"
| "indexOf (y # ys) x =
     (if y = x then 0 else (let r = indexOf ys x in if r < 0 then - 1 else r + 1))"

record 'a observer_entry =
  isIntersecting :: bool
  target :: 'a

section \<open>ScrollAnimations component\<close>

text \<open>
  \<open>getStaggerDelay\<close>, with \<open>config.selector = '.fade-in'\<close>. Reading \<open>querySelectorAll\<close>
  of a \<open>null\<close> parent throws a \<open>TypeError\<close>.
\<close>

definition getStaggerDelay :: "node \<Rightarrow> nat \<Rightarrow> js_exception + int" where
  "getStaggerDelay tree element =
     (case parentElement tree element of
        None \<Rightarrow> Inl TypeError
      | Some parent \<Rightarrow>
          (let siblings = querySelectorAll ''fade-in'' parent;
               index = indexOf (map node_id siblings) element
           in Inr (index * 100)))"

text \<open>
  The state \<open>handleIntersection\<close> works on: the document, the targets of the observer,
  and the timeouts it has set (delay in milliseconds, element that gets \<open>visible\<close>).
  An exception leaves \<open>forEach\<close> and the callback.
\<close>

record scroll_animations =
  dom :: node
  observed :: "nat list"
  timeouts :: "(int \<times> nat) list"

fun handleIntersection ::
  "nat observer_entry list \<Rightarrow> scroll_animations \<Rightarrow> js_exception option \<times> scroll_animations" where
  "handleIntersection [] s = (None, s)"
| "handleIntersection (entry # entries) s =
     (if isIntersecting entry
      then (case getStaggerDelay (dom s) (target entry) of
              Inl ex \<Rightarrow> (Some ex, s)
            | Inr delay \<Rightarrow>
                handleIntersection entries
                  (s\<lparr>timeouts := timeouts s @ [(delay, target entry)],
                     observed := removeAll (target entry) (observed s)\<rparr>))
      else handleIntersection entries s)"

text \<open>
  The delay in the words of the specification: the zero-based index of the element among
  its siblings (the children of its parent) that match the selector, times 100.
\<close>

definition spec_stagger_delay :: "node \<Rightarrow> nat \<Rightarrow> js_exception + int" where
  "spec_stagger_delay tree element =
     (case parentElement tree element of
        None \<Rightarrow> Inl TypeError
      | Some parent \<Rightarrow>
          Inr (indexOf (map node_id (filter (matches_class ''fade-in'') (childNodes parent)))
                 element * 100))"

text \<open>
  A page with two sections of class \<open>fade-in\<close> under one parent; the first section holds a
  card of class \<open>fade-in\<close> too.
\<close>

definition nested_page :: node where
  "nested_page =
     Node 0 [] []
       [Node 1 [''fade-in''] [] [Node 2 [''fade-in''] [] []],
        Node 3 [''fade-in''] [] []]"

definition nested_animations :: scroll_animations where
  "nested_animations = \<lparr>dom = nested_page, observed = [1, 2, 3], timeouts = []\<rparr>"

section \<open>App: active navigation link\<close>

text \<open>
  A template literal prints \<open>null\<close> for a missing attribute. \<open>setActiveNavLink\<close> visits
  every link of the list; the observer callback calls it for each intersecting entry, in
  the order of the batch.
\<close>

definition template_string :: "string option \<Rightarrow> string" where
  "template_string v = (case v of None \<Rightarrow> ''null'' | Some str \<Rightarrow> str)"

definition setActiveNavLink :: "string option \<Rightarrow> element list \<Rightarrow> element list" where
  "setActiveNavLink sectionId navLinks =
     map (\<lambda>link.
            if getAttribute ''href'' link = Some (''#'' @ template_string sectionId)
            then classList_add ''text-primary-dark'' link
            else classList_remove ''text-primary-dark'' link)
         navLinks"

definition activeNavigationCallback ::
  "element observer_entry list \<Rightarrow> element list \<Rightarrow> element list" where
  "activeNavigationCallback entries navLinks =
     fold (\<lambda>entry links.
             if isIntersecting entry
             then setActiveNavLink (getAttribute ''id'' (target entry)) links
             else links)
          entries navLinks"

definition is_active :: "element \<Rightarrow> bool" where
  "is_active link = classList_contains ''text-primary-dark'' link"

definition last_intersecting :: "'a observer_entry list \<Rightarrow> 'a option" where
  "last_intersecting entries =
     (let hits = filter isIntersecting entries
      in if hits = [] then None else Some (target (last hits)))"

definition nav_link :: "string \<Rightarrow> element" where
  "nav_link href = setAttribute ''href'' href plain_element"

definition section_element :: "string \<Rightarrow> element" where
  "section_element ident = setAttribute ''id'' ident plain_element"

text \<open>
  Two navigation lists: one where the desktop menu and the mobile menu both link to
  \<open>#about\<close>, and one with distinct targets whose second link starts out active.
\<close>

definition two_menus :: "element list" where
  "two_menus = [nav_link ''#about'', nav_link ''#services'', nav_link ''#about'']"

definition distinct_menu :: "element list" where
  "distinct_menu = [nav_link ''#about'', classList_add ''text-primary-dark'' (nav_link ''#services'')]"

section \<open>FormHandler component\<close>

text \<open>
  A form: the button that \<open>form.querySelector('button[type="submit"]')\<close> returns, the
  fields with their default values, the subtree of the form element, the identity the
  next created element gets, and the elements whose five-second removal timers are
  pending, oldest first.
\<close>

record button =
  disabled :: bool
  textContent :: string

record form_field =
  field_value :: string
  defaultValue :: string

record form =
  submitBtn :: "button option"
  form_fields :: "form_field list"
  content :: node
  next_id :: nat
  removal_timers :: "nat list"

definition form_reset :: "form \<Rightarrow> form" where
  "form_reset f = f\<lparr>form_fields := map (\<lambda>fl. fl\<lparr>field_value := defaultValue fl\<rparr>) (form_fields f)\<rparr>"

definition showMessage :: "form \<Rightarrow> string \<Rightarrow> string \<Rightarrow> form" where
  "showMessage f type message =
     (let f1 = (case querySelector ''form-message'' (content f) of
                  None \<Rightarrow> f
                | Some existingMsg \<Rightarrow> f\<lparr>content := remove_node (node_id existingMsg) (content f)\<rparr>);
          msgElement = Node (next_id f)
                         ([''form-message'', ''mt-4'', ''p-4'', ''rounded''] @
                          (if type = ''success'' then [''bg-green-100'', ''text-green-700'']
                           else [''bg-red-100'', ''text-red-700'']))
                         message []
      in f1\<lparr>content := appendChild msgElement (content f1),
            next_id := Suc (next_id f),
            removal_timers := removal_timers f @ [next_id f]\<rparr>)"

text \<open>The oldest removal timer fires: \<open>msgElement.remove()\<close>.\<close>

definition fire_removal_timer :: "form \<Rightarrow> form" where
  "fire_removal_timer f =
     (case removal_timers f of
        [] \<Rightarrow> f
      | i # rest \<Rightarrow> f\<lparr>content := remove_node i (content f), removal_timers := rest\<rparr>)"

text \<open>
  \<open>handleSubmit\<close> in its two halves: up to the \<open>await\<close>, and from the settled operation
  to the end of \<open>finally\<close>. The placeholder operation of the source always resolves; the
  outcome is a parameter so that the \<open>catch\<close> branch is a branch of the model. The
  variable \<open>submitBtn\<close> of the handler refers to the button in the form's slot: nothing in
  the component puts another element there between the two halves.
\<close>

datatype outcome = Resolved | Rejected

definition handleSubmit_begin :: "form \<Rightarrow> form" where
  "handleSubmit_begin f =
     (case submitBtn f of
        None \<Rightarrow> f
      | Some b \<Rightarrow> f\<lparr>submitBtn := Some (b\<lparr>disabled := True, textContent := ''Sending...''\<rparr>)\<rparr>)"

definition handleSubmit_settle :: "outcome \<Rightarrow> form \<Rightarrow> form" where
  "handleSubmit_settle oc f =
     (let f1 = (case oc of
                  Resolved \<Rightarrow>
                    form_reset (showMessage f ''success''
                      (''Thank you! We'' @ [CHR 0x27] @ ''ll be in touch soon.''))
                | Rejected \<Rightarrow>
                    showMessage f ''error'' ''Something went wrong. Please try again.'')
      in (case submitBtn f1 of
            None \<Rightarrow> f1
          | Some b \<Rightarrow> f1\<lparr>submitBtn := Some (b\<lparr>disabled := False, textContent := ''Submit''\<rparr>)\<rparr>))"

definition handleSubmit :: "outcome \<Rightarrow> form \<Rightarrow> form" where
  "handleSubmit oc f = handleSubmit_settle oc (handleSubmit_begin f)"

datatype form_event = SubmitEvent | OperationSettles outcome | RemovalTimerFires

fun form_step :: "form_event \<Rightarrow> form \<Rightarrow> form" where
  "form_step SubmitEvent f = handleSubmit_begin f"
| "form_step (OperationSettles oc) f = handleSubmit_settle oc f"
| "form_step RemovalTimerFires f = fire_removal_timer f"


text \<open>A contact form with one field and a submit button labelled \<open>Send message\<close>.\<close>

definition contact_form :: form where
  "contact_form =
     \<lparr>submitBtn = Some \<lparr>disabled = False, textContent = ''Send message''\<rparr>,
      form_fields = [\<lparr>field_value = ''hello'', defaultValue = []\<rparr>],
      content = Node 0 [] [] [Node 1 [] ''Send message'' []],
      next_id = 2, removal_timers = []\<rparr>"

section \<open>Theorems\<close>

lemma classList_simps:
  "classList (classList_add c e) = (if c \<in> set (classList e) then classList e else classList e @ [c])"
  "classList (classList_remove c e) = removeAll c (classList e)"
  by (simp_all add: classList_add_def classList_remove_def)

text \<open>
  C2. For a header that exists, after \<open>updateHeaderOnScroll\<close> the header carries the
  elevated style exactly when the scroll offset is strictly greater than 100 and the flat
  style exactly when it is at most 100; in particular the flat style at offsets 0 and
  100 and the elevated style at offset 150.
\<close>

theorem header_style_threshold:
  assumes "header s = Some h"
  shows "(header_is elevated_style (updateHeaderOnScroll s) \<longleftrightarrow> scrollY s > 100)
       \<and> (header_is flat_style (updateHeaderOnScroll s) \<longleftrightarrow> scrollY s \<le> 100)
       \<and> (scrollY s = 0 \<longrightarrow> header_is flat_style (updateHeaderOnScroll s))
       \<and> (scrollY s = 100 \<longrightarrow> header_is flat_style (updateHeaderOnScroll s))
       \<and> (scrollY s = 150 \<longrightarrow> header_is elevated_style (updateHeaderOnScroll s))"
  using assms
  by (auto simp: updateHeaderOnScroll_def header_is_def elevated_style_def flat_style_def
      classList_contains_def classList_simps)

theorem header_style_threshold_witness:
  "header full_page = Some plain_element
   \<and> header_is flat_style (updateHeaderOnScroll (full_page\<lparr>scrollY := 0\<rparr>))
   \<and> header_is flat_style (updateHeaderOnScroll (full_page\<lparr>scrollY := 100\<rparr>))
   \<and> \<not> header_is elevated_style (updateHeaderOnScroll (full_page\<lparr>scrollY := 100\<rparr>))
   \<and> header_is elevated_style (updateHeaderOnScroll (full_page\<lparr>scrollY := 150\<rparr>))
   \<and> \<not> header_is flat_style (updateHeaderOnScroll (full_page\<lparr>scrollY := 150\<rparr>))"
proof -
  have h: "header (full_page\<lparr>scrollY := y\<rparr>) = Some plain_element" for y
    by (simp add: full_page_def)
  from header_style_threshold [OF h [of 0]] header_style_threshold [OF h [of 100]]
    header_style_threshold [OF h [of 150]] h [of 0]
  show ?thesis by simp
qed

text \<open>
  C10. When the menu panel or the trigger button is missing, a toggle flips the
  \<open>isMenuOpen\<close> flag, which \<open>getState\<close> reports, and changes nothing else: the state
  after the toggle is the state before it with only the flag flipped, so the DOM keeps
  whatever it showed and can disagree with the reported logical state.
\<close>

theorem toggle_without_elements:
  assumes "mobileMenu s = None \<or> mobileMenuBtn s = None"
  shows "toggleMobileMenu s = s\<lparr>isMenuOpen := \<not> isMenuOpen s\<rparr>
       \<and> fst (getState (toggleMobileMenu s)) = (\<not> isMenuOpen s)
       \<and> menu_dom (toggleMobileMenu s) = menu_dom s"
  using assms
  by (auto simp: toggleMobileMenu_def updateMenuState_def getState_def menu_dom_def
      split: option.splits)

theorem toggle_without_elements_witness:
  "(mobileMenu page_without_panel = None \<or> mobileMenuBtn page_without_panel = None)
   \<and> toggleMobileMenu page_without_panel = page_without_panel\<lparr>isMenuOpen := True\<rparr>
   \<and> fst (getState (toggleMobileMenu page_without_panel)) = True
   \<and> menu_dom (toggleMobileMenu page_without_panel) = (False, Some ''false'', [])
   \<and> menu_dom (toggleMobileMenu page_without_panel)
       \<noteq> spec_dom (logical_state (toggleMobileMenu page_without_panel))"
proof -
  have h: "mobileMenu page_without_panel = None \<or> mobileMenuBtn page_without_panel = None"
    by (simp add: page_without_panel_def)
  have closed: "\<not> isMenuOpen page_without_panel"
    by (simp add: page_without_panel_def full_page_def)
  have dom: "menu_dom page_without_panel = (False, Some ''false'', [])"
    by (simp add: page_without_panel_def full_page_def menu_dom_def closed_button_def
        setAttribute_def getAttribute_def)
  note t = toggle_without_elements [OF h]
  have 1: "toggleMobileMenu page_without_panel = page_without_panel\<lparr>isMenuOpen := True\<rparr>"
    using conjunct1 [OF t] closed by simp
  have 2: "fst (getState (toggleMobileMenu page_without_panel)) = True"
    using conjunct1 [OF conjunct2 [OF t]] closed by simp
  have 3: "menu_dom (toggleMobileMenu page_without_panel) = (False, Some ''false'', [])"
    using conjunct2 [OF conjunct2 [OF t]] dom by simp
  have 4: "logical_state (toggleMobileMenu page_without_panel) = MenuOpen"
    unfolding 1 by (simp add: logical_state_def)
  have 5: "menu_dom (toggleMobileMenu page_without_panel)
       \<noteq> spec_dom (logical_state (toggleMobileMenu page_without_panel))"
    unfolding 3 4 by simp
  from h 1 2 3 5 show ?thesis by blast
qed

subsection \<open>Scroll events and animation frames\<close>

lemma classList_ops_idem:
  "classList_add a (classList_remove b (classList_add c
     (classList_add a (classList_remove b (classList_add c h)))))
   = classList_add a (classList_remove b (classList_add c h))"
  "classList_remove a (classList_add b (classList_remove c
     (classList_remove a (classList_add b (classList_remove c h)))))
   = classList_remove a (classList_add b (classList_remove c h))"
  by (auto simp: classList_add_def classList_remove_def)

lemma updateHeaderOnScroll_idem:
  "updateHeaderOnScroll (updateHeaderOnScroll s) = updateHeaderOnScroll s"
  by (cases "header s") (simp_all add: updateHeaderOnScroll_def classList_ops_idem)

lemma updateHeaderOnScroll_funpow:
  "(updateHeaderOnScroll ^^ Suc n) s = updateHeaderOnScroll s"
  by (induction n) (simp_all add: updateHeaderOnScroll_idem)

lemma raf_queue_scrolls:
  "raf_queue ((handleScroll ^^ k) s) = raf_queue s @ replicate k UpdateHeaderOnScroll"
  by (induction k) (simp_all add: handleScroll_def replicate_append_same)

lemma scrolls_only_queue:
  "(handleScroll ^^ k) s = s\<lparr>raf_queue := raf_queue s @ replicate k UpdateHeaderOnScroll\<rparr>"
  by (induction k) (simp_all add: handleScroll_def replicate_append_same)

lemma fold_run_callback:
  "fold run_callback cbs s = (updateHeaderOnScroll ^^ length cbs) s"
proof (induction cbs arbitrary: s)
  case Nil
  show ?case by simp
next
  case (Cons c cbs)
  show ?case by (cases c) (simp add: Cons.IH funpow_swap1)
qed

text \<open>
  C8, as the code has it. \<open>handleScroll\<close> queues one callback per scroll event and keeps
  no pending flag, so the frame that follows \<open>k\<close> scroll events runs
  \<open>updateHeaderOnScroll\<close> once for each of them (and once for each callback that was
  already queued). The recomputation is idempotent: when at least one scroll event
  arrived, the state after the frame is the state after a single recomputation.
\<close>

theorem scroll_frame_recomputations:
  "recomputations_in_frame ((handleScroll ^^ k) s) = length (raf_queue s) + k
   \<and> (0 < k \<longrightarrow> snd (animationFrame ((handleScroll ^^ k) s))
                 = updateHeaderOnScroll (s\<lparr>raf_queue := []\<rparr>))"
proof -
  have all_upd: "filter (\<lambda>c. c = UpdateHeaderOnScroll) cbs = cbs" for cbs
    by (induction cbs) (auto intro: raf_callback.exhaust)
  have "recomputations_in_frame ((handleScroll ^^ k) s) = length (raf_queue s) + k"
    by (simp add: recomputations_in_frame_def animationFrame_def all_upd raf_queue_scrolls)
  moreover have "snd (animationFrame ((handleScroll ^^ k) s))
        = updateHeaderOnScroll (s\<lparr>raf_queue := []\<rparr>)" if kpos: "0 < k"
  proof -
    obtain n where n: "length (raf_queue s) + k = Suc n"
      using kpos by (cases "length (raf_queue s) + k") auto
    have q: "raf_queue ((handleScroll ^^ k) s) = raf_queue s @ replicate k UpdateHeaderOnScroll"
      by (rule raf_queue_scrolls)
    have st: "((handleScroll ^^ k) s)\<lparr>raf_queue := []\<rparr> = s\<lparr>raf_queue := []\<rparr>"
      by (simp add: scrolls_only_queue)
    have "snd (animationFrame ((handleScroll ^^ k) s))
        = fold run_callback (raf_queue ((handleScroll ^^ k) s))
            (((handleScroll ^^ k) s)\<lparr>raf_queue := []\<rparr>)"
      by (simp add: animationFrame_def)
    also have "\<dots> = (updateHeaderOnScroll ^^ length (raf_queue ((handleScroll ^^ k) s)))
            (((handleScroll ^^ k) s)\<lparr>raf_queue := []\<rparr>)"
      by (rule fold_run_callback)
    also have "\<dots> = (updateHeaderOnScroll ^^ (length (raf_queue s) + k)) (s\<lparr>raf_queue := []\<rparr>)"
      unfolding q st by simp
    finally have "snd (animationFrame ((handleScroll ^^ k) s))
        = (updateHeaderOnScroll ^^ (length (raf_queue s) + k)) (s\<lparr>raf_queue := []\<rparr>)" .
    then show ?thesis
      unfolding n by (simp only: updateHeaderOnScroll_funpow)
  qed
  ultimately show ?thesis by blast
qed

theorem scroll_frame_recomputations_witness:
  "recomputations_in_frame ((handleScroll ^^ 3) full_page) = 3
   \<and> (0 < (3::nat) \<and> snd (animationFrame ((handleScroll ^^ 3) full_page))
                 = updateHeaderOnScroll full_page)"
  using scroll_frame_recomputations [of 3 full_page]
  by (simp add: full_page_def)

text \<open>
  C8 as stated fails: two scroll events before a frame give two recomputations in it.
\<close>

theorem scroll_frame_counterexample:
  "\<not> recomputations_in_frame (handleScroll (handleScroll full_page)) \<le> 1"
  by (simp add: recomputations_in_frame_def animationFrame_def handleScroll_def full_page_def)

subsection \<open>The mobile menu against the two-state machine\<close>

lemma logical_state_step:
  "logical_state (menu_step a s) = spec_step a (logical_state s)"
  by (cases a)
     (auto simp: logical_state_def toggleMobileMenu_def closeMobileMenu_def updateMenuState_def
        split: option.splits)

lemma logical_state_fold:
  "logical_state (fold menu_step acts s) = fold spec_step acts (logical_state s)"
  by (induction acts arbitrary: s) (simp_all add: logical_state_step)

lemma updateMenuState_synced:
  assumes "mobileMenu s \<noteq> None" "mobileMenuBtn s \<noteq> None"
  shows "menu_synced (updateMenuState s)"
  using assms
  by (cases "isMenuOpen s")
     (auto simp: menu_synced_def updateMenuState_def menu_dom_def logical_state_def
        classList_contains_def classList_add_def classList_remove_def setAttribute_def
        getAttribute_def)

lemma toggle_synced:
  assumes "mobileMenu s \<noteq> None" "mobileMenuBtn s \<noteq> None"
  shows "menu_synced (toggleMobileMenu s)"
  unfolding toggleMobileMenu_def using assms by (intro updateMenuState_synced) simp_all

lemma close_synced:
  assumes "menu_synced s"
  shows "menu_synced (closeMobileMenu s)"
proof (cases "isMenuOpen s")
  case True
  have "menu_synced (updateMenuState (s\<lparr>isMenuOpen := False\<rparr>))"
    using assms by (intro updateMenuState_synced) (simp_all add: menu_synced_def)
  with True show ?thesis by (simp add: closeMobileMenu_def)
next
  case False
  with assms show ?thesis by (simp add: closeMobileMenu_def)
qed

lemma step_synced:
  assumes "menu_synced s"
  shows "menu_synced (menu_step a s)"
proof (cases a)
  case Toggle
  from assms have "mobileMenu s \<noteq> None" "mobileMenuBtn s \<noteq> None"
    unfolding menu_synced_def by blast+
  then show ?thesis unfolding Toggle menu_step.simps by (rule toggle_synced)
next
  case Close
  from assms show ?thesis unfolding Close menu_step.simps by (rule close_synced)
qed

lemma fold_synced: "menu_synced s \<Longrightarrow> menu_synced (fold menu_step acts s)"
  by (induction acts arbitrary: s) (simp_all add: step_synced)

lemma fold_synced_after_toggle:
  assumes "mobileMenu s \<noteq> None" "mobileMenuBtn s \<noteq> None" "\<not> isMenuOpen s" "Toggle \<in> set acts"
  shows "menu_synced (fold menu_step acts s)"
  using assms
proof (induction acts arbitrary: s)
  case Nil
  then show ?case by simp
next
  case (Cons a acts)
  show ?case
  proof (cases a)
    case Toggle
    have "menu_synced (toggleMobileMenu s)"
      using Cons.prems by (intro toggle_synced)
    then show ?thesis using Toggle by (simp add: fold_synced)
  next
    case Close
    with Cons.prems have "closeMobileMenu s = s" "Toggle \<in> set acts"
      by (simp_all add: closeMobileMenu_def)
    with Cons Close show ?thesis by simp
  qed
qed

text \<open>
  C1, as the code has it. When the menu panel and the trigger button both exist, the menu
  starts closed, and the DOM starts in the closed configuration or the sequence holds at
  least one toggle, then after every finite sequence of toggle and close actions the DOM
  state (open marker, \<open>aria-expanded\<close>, body scroll lock) is the one determined by the
  state the two-state machine reaches on the same sequence, and the flag is that state.
\<close>

theorem menu_dom_matches_machine:
  assumes "mobileMenu s \<noteq> None" and "mobileMenuBtn s \<noteq> None"
    and "\<not> isMenuOpen s"
    and "menu_dom s = spec_dom MenuClosed \<or> Toggle \<in> set acts"
  shows "menu_dom (run_menu acts s) = spec_dom (spec_replay acts)
       \<and> logical_state (run_menu acts s) = spec_replay acts"
proof -
  have start: "logical_state s = MenuClosed"
    using assms(3) by (simp add: logical_state_def)
  have logical: "logical_state (run_menu acts s) = spec_replay acts"
    by (simp add: run_menu_def spec_replay_def logical_state_fold start)
  have "menu_synced (fold menu_step acts s)"
  proof (cases "Toggle \<in> set acts")
    case True
    with assms show ?thesis by (intro fold_synced_after_toggle)
  next
    case False
    with assms have "menu_synced s" by (simp add: menu_synced_def start)
    then show ?thesis by (rule fold_synced)
  qed
  then have "menu_dom (run_menu acts s) = spec_dom (logical_state (run_menu acts s))"
    by (simp add: menu_synced_def run_menu_def)
  with logical show ?thesis by simp
qed

theorem menu_dom_matches_machine_witness:
  "mobileMenu full_page \<noteq> None \<and> mobileMenuBtn full_page \<noteq> None \<and> \<not> isMenuOpen full_page
   \<and> (menu_dom full_page = spec_dom MenuClosed \<or> Toggle \<in> set [Toggle, Close, Toggle])
   \<and> menu_dom (run_menu [Toggle, Close, Toggle] full_page) = (True, Some ''true'', ''hidden'')
   \<and> logical_state (run_menu [Toggle, Close, Toggle] full_page) = MenuOpen"
proof -
  have h: "mobileMenu full_page \<noteq> None" "mobileMenuBtn full_page \<noteq> None"
      "\<not> isMenuOpen full_page"
    by (simp_all add: full_page_def)
  have d: "menu_dom full_page = spec_dom MenuClosed \<or> Toggle \<in> set [Toggle, Close, Toggle]"
    by simp
  have r: "spec_replay [Toggle, Close, Toggle] = MenuOpen"
    by (simp add: spec_replay_def)
  from menu_dom_matches_machine [OF h d] h d show ?thesis
    unfolding r by simp
qed

text \<open>
  C1 as stated fails on a page without the menu panel: the button exists, so a click
  toggles; the flag becomes open and the DOM stays as it was.
\<close>

theorem menu_dom_counterexample:
  "menu_dom (run_menu [Toggle] page_without_panel) \<noteq> spec_dom (spec_replay [Toggle])"
  by (simp add: run_menu_def spec_replay_def toggleMobileMenu_def updateMenuState_def
      page_without_panel_def full_page_def menu_dom_def)

subsection \<open>Rounding to a double\<close>

text \<open>
  \<open>binade\<close> is the exponent of its argument: \<open>2^e \<le> |x| < 2^(e+1)\<close>, and it is the only
  such exponent.
\<close>

lemma bit_length_bounds:
  "0 < n \<Longrightarrow> 2 ^ (bit_length n - 1) \<le> n \<and> n < 2 ^ bit_length n"
proof (induction n rule: bit_length.induct)
  case (1 n)
  show ?case
  proof (cases "n div 2 = 0")
    case True
    with "1.prems" have "n = 1" by (cases n) auto
    then show ?thesis by (simp add: bit_length.simps)
  next
    case False
    then have pos: "0 < n div 2" by simp
    from "1.IH" [OF _ pos] "1.prems"
    have ih: "2 ^ (bit_length (n div 2) - 1) \<le> n div 2" "n div 2 < 2 ^ bit_length (n div 2)"
      by auto
    have bl: "bit_length n = Suc (bit_length (n div 2))"
      using "1.prems" by (subst bit_length.simps) simp
    have blpos: "0 < bit_length (n div 2)"
      using pos by (subst bit_length.simps) simp
    then obtain k where k: "bit_length (n div 2) = Suc k" by (cases "bit_length (n div 2)") auto
    from ih have "2 * 2 ^ k \<le> n" "n < 2 * 2 ^ Suc k" unfolding k by auto
    then show ?thesis unfolding bl k by simp
  qed
qed

lemma pow2_pos: "0 < pow2 k"
  by (simp add: pow2_def)

lemma pow2_Suc: "pow2 (k + 1) = 2 * pow2 k"
proof (cases "0 \<le> k")
  case True
  then show ?thesis by (simp add: pow2_def nat_add_distrib)
next
  case False
  then obtain m where m: "k = - int (Suc m)" by (cases k) auto
  show ?thesis unfolding m by (simp add: pow2_def nat_add_distrib)
qed

lemma pow2_mono: "j \<le> k \<Longrightarrow> pow2 j \<le> pow2 k"
proof (induction "nat (k - j)" arbitrary: k)
  case 0
  then show ?case by simp
next
  case (Suc d)
  then have "j \<le> k - 1" "d = nat (k - 1 - j)" by auto
  from Suc.hyps(1) [OF this(2) this(1)] have "pow2 j \<le> pow2 (k - 1)" .
  also have "pow2 (k - 1) \<le> pow2 k"
    using pow2_Suc [of "k - 1"] pow2_pos [of "k - 1"] by simp
  finally show ?case .
qed

lemma pow2_power_int: "pow2 k = 2 powi k"
  by (simp add: pow2_def power_int_def inverse_eq_divide power_one_over)

lemma pow2_add: "pow2 (j + k) = pow2 j * pow2 k"
  by (simp add: pow2_power_int power_int_add)

lemma binade_bounds:
  assumes "x \<noteq> 0"
  shows "pow2 (binade x) \<le> \<bar>x\<bar> \<and> \<bar>x\<bar> < pow2 (binade x + 1)"
proof (cases "1 \<le> \<bar>x\<bar>")
  case True
  define m where "m = nat \<lfloor>\<bar>x\<bar>\<rfloor>"
  have mpos: "0 < m" using True by (simp add: m_def)
  have m1: "real m \<le> \<bar>x\<bar>" "\<bar>x\<bar> < real m + 1"
    using True by (simp_all add: m_def) (linarith+)?
  from bit_length_bounds [OF mpos] have b: "2 ^ (bit_length m - 1) \<le> m" "m < 2 ^ bit_length m"
    by auto
  have blpos: "0 < bit_length m" using mpos by (subst bit_length.simps) simp
  have e: "binade x = int (bit_length m) - 1"
    using True by (simp add: binade_def m_def)
  have lo: "pow2 (int (bit_length m) - 1) = 2 ^ (bit_length m - 1)"
    using blpos by (simp add: pow2_def nat_diff_distrib')
  have hi: "pow2 (int (bit_length m) - 1 + 1) = 2 ^ bit_length m"
    by (simp add: pow2_def)
  have "(2::real) ^ (bit_length m - 1) \<le> real m"
    using of_nat_mono [OF b(1), where ?'a = real] by simp
  then have 1: "2 ^ (bit_length m - 1) \<le> \<bar>x\<bar>" using m1(1) by linarith
  have "Suc m \<le> 2 ^ bit_length m" using b(2) by simp
  then have "real m + 1 \<le> 2 ^ bit_length m"
    using of_nat_mono [of "Suc m" "2 ^ bit_length m", where ?'a = real] by simp
  then have 2: "\<bar>x\<bar> < 2 ^ bit_length m" using m1(2) by linarith
  show ?thesis unfolding e lo hi using 1 2 by simp
next
  case False
  define a where "a = \<bar>x\<bar>"
  have a: "0 < a" "a < 1" using assms False by (simp_all add: a_def)
  define m where "m = nat \<lfloor>1 / a\<rfloor>"
  have inv: "1 < 1 / a" using a by simp
  have mpos: "0 < m" using inv by (simp add: m_def)
  have m1: "real m \<le> 1 / a" "1 / a < real m + 1"
    using inv by (simp_all add: m_def) (linarith+)?
  define b where "b = bit_length m"
  from bit_length_bounds [OF mpos] have bb: "2 ^ (b - 1) \<le> m" "m < 2 ^ b"
    by (auto simp: b_def)
  have bpos: "0 < b" unfolding b_def using mpos by (subst bit_length.simps) simp
  have "(2::real) ^ (b - 1) \<le> real m"
    using of_nat_mono [OF bb(1), where ?'a = real] by simp
  then have lo: "2 ^ (b - 1) \<le> 1 / a" using m1(1) by linarith
  have "Suc m \<le> 2 ^ b" using bb(2) by simp
  then have "real m + 1 \<le> 2 ^ b"
    using of_nat_mono [of "Suc m" "2 ^ b", where ?'a = real] by simp
  then have hi: "1 / a < 2 ^ b" using m1(2) by linarith
  have lo': "a * 2 ^ (b - 1) \<le> 1" using lo a by (simp add: field_simps)
  have hi': "1 < a * 2 ^ b" using hi a by (simp add: field_simps)
  have pw: "(2::real) ^ b = 2 * 2 ^ (b - 1)" using bpos by (cases b) auto
  have nb: "nat (int b - 1) = b - 1" by simp
  show ?thesis
  proof (cases "a * 2 ^ (b - 1) = 1")
    case True
    have e: "binade x = - (int b - 1)"
      using False True by (simp add: binade_def a_def [symmetric] m_def [symmetric] b_def [symmetric] Let_def nb)
    have p: "pow2 (- (int b - 1)) = 1 / 2 ^ (b - 1)"
      using bpos by (cases "b = 1") (auto simp: pow2_def nat_diff_distrib')
    have eqa: "a = 1 / 2 ^ (b - 1)" using True by (simp add: field_simps)
    have pa: "pow2 (- (int b - 1)) = a" unfolding p eqa [symmetric] ..
    have "pow2 (- (int b - 1) + 1) = 2 * pow2 (- (int b - 1))" by (rule pow2_Suc)
    then have pa2: "pow2 (- (int b - 1) + 1) = 2 * a" unfolding pa .
    show ?thesis unfolding e a_def [symmetric] pa pa2 using a by simp
  next
    case neq: False
    have e: "binade x = - int b"
      using False neq by (simp add: binade_def a_def [symmetric] m_def [symmetric] b_def [symmetric] Let_def nb)
    have p: "pow2 (- int b) = 1 / 2 ^ b"
      using bpos by (simp add: pow2_def)
    have p1: "pow2 (- int b + 1) = 1 / 2 ^ (b - 1)"
      using pow2_Suc [of "- int b"] p pw by simp
    have 1: "1 / 2 ^ b < a" using hi' by (simp add: field_simps)
    have "a * 2 ^ (b - 1) < 1" using lo' neq by simp
    then have 2: "a < 1 / 2 ^ (b - 1)" by (simp add: field_simps)
    show ?thesis unfolding e a_def [symmetric] p p1 using 1 2 by simp
  qed
qed

lemma binade_unique:
  assumes "pow2 e \<le> \<bar>x\<bar>" and "\<bar>x\<bar> < pow2 (e + 1)"
  shows "binade x = e"
proof -
  have x: "x \<noteq> 0" using assms(1) pow2_pos [of e] by auto
  note b = binade_bounds [OF x]
  have "\<not> binade x < e"
  proof
    assume "binade x < e"
    then have "pow2 (binade x + 1) \<le> pow2 e" by (intro pow2_mono) simp
    with b assms show False by simp
  qed
  moreover have "\<not> e < binade x"
  proof
    assume "e < binade x"
    then have "pow2 (e + 1) \<le> pow2 (binade x)" by (intro pow2_mono) simp
    with b assms show False by simp
  qed
  ultimately show ?thesis by simp
qed

text \<open>
  \<open>round_half_even\<close> is within one half of its argument, leaves integers alone and sends
  a tie to the even neighbour. So \<open>round_to_double\<close> moves a number by at most half a
  unit in the last place, and a number that is a multiple of its unit in the last place,
  below the overflow threshold, is a double and rounds to itself.
\<close>

lemma round_half_even_int: "round_half_even (of_int n) = n"
  by (simp add: round_half_even_def)

lemma round_half_even_nearest: "\<bar>of_int (round_half_even x) - x\<bar> \<le> 1 / 2"
  unfolding round_half_even_def Let_def by (auto; linarith)

lemma round_half_even_tie:
  "round_half_even (of_int k + 1 / 2) = (if even k then k else k + 1)"
proof -
  have "\<lfloor>real_of_int k + 1 / 2\<rfloor> = k" by linarith
  then show ?thesis by (simp add: round_half_even_def Let_def)
qed

lemma round_to_double_nearest:
  assumes "round_to_double x = Finite r"
  shows "\<bar>r - x\<bar> \<le> pow2 (max (binade x) (- 1022) - 52) / 2"
proof (cases "x = 0")
  case True
  with assms have "r = 0" by (simp add: round_to_double_def)
  with True show ?thesis using pow2_pos [of "max (binade 0) (- 1022) - 52"] by simp
next
  case False
  define q where "q = pow2 (max (binade x) (- 1022) - 52)"
  define n where "n = round_half_even (x / q)"
  have qpos: "0 < q" unfolding q_def by (rule pow2_pos)
  from assms False have r: "r = of_int n * q"
    by (simp add: round_to_double_def Let_def q_def [symmetric] n_def [symmetric] split: if_splits)
  have "\<bar>of_int n - x / q\<bar> \<le> 1 / 2" unfolding n_def by (rule round_half_even_nearest)
  then have "\<bar>of_int n - x / q\<bar> * q \<le> 1 / 2 * q"
    using qpos by (intro mult_right_mono) simp_all
  moreover have "\<bar>of_int n - x / q\<bar> * q = \<bar>of_int n * q - x\<bar>"
  proof -
    have "\<bar>of_int n - x / q\<bar> * q = \<bar>of_int n - x / q\<bar> * \<bar>q\<bar>"
      using qpos by simp
    also have "\<dots> = \<bar>(of_int n - x / q) * q\<bar>" by (simp only: abs_mult)
    also have "(of_int n - x / q) * q = of_int n * q - x"
      using qpos by (simp add: left_diff_distrib)
    finally show ?thesis .
  qed
  ultimately show ?thesis unfolding r q_def [symmetric] by simp
qed

lemma round_to_double_exact:
  assumes "x \<noteq> 0" and "binade x \<le> 1023"
    and "x / pow2 (max (binade x) (- 1022) - 52) = of_int n"
  shows "round_to_double x = Finite x"
proof -
  define e where "e = binade x"
  define q where "q = pow2 (max e (- 1022) - 52)"
  have qpos: "0 < q" unfolding q_def by (rule pow2_pos)
  have xq: "x / q = of_int n" using assms(3) by (simp add: q_def e_def)
  then have x: "x = of_int n * q" using qpos by (simp add: field_simps)
  have rnd: "round_half_even (x / q) = n" unfolding xq by (rule round_half_even_int)
  have no_overflow: "\<not> (1023 < e \<or> (e = 1023 \<and> \<bar>n\<bar> = 9007199254740992))"
  proof
    assume "1023 < e \<or> (e = 1023 \<and> \<bar>n\<bar> = 9007199254740992)"
    with assms(2) have e1023: "e = 1023" and n: "\<bar>n\<bar> = 9007199254740992"
      by (auto simp: e_def)
    have q971: "q = pow2 971" unfolding q_def e1023 by simp
    have "pow2 1024 = pow2 53 * pow2 971" using pow2_add [of 53 971] by simp
    moreover have "pow2 53 = 9007199254740992" by (simp add: pow2_def)
    ultimately have top: "pow2 1024 = 9007199254740992 * q" unfolding q971 by simp
    have "\<bar>x\<bar> = real_of_int \<bar>n\<bar> * q" unfolding x using qpos by (simp add: abs_mult)
    then have "\<bar>x\<bar> = pow2 1024" unfolding n top by simp
    moreover have "\<bar>x\<bar> < pow2 (e + 1)" using binade_bounds [OF assms(1)] by (simp add: e_def)
    ultimately show False unfolding e1023 by simp
  qed
  have "round_to_double x = Finite (of_int n * q)"
    using assms(1) no_overflow rnd
    by (simp add: round_to_double_def Let_def e_def [symmetric] q_def [symmetric])
  then show ?thesis unfolding x [symmetric] .
qed

text \<open>The sum of two doubles can overflow: \<open>2^1023 + 2^1023\<close> is \<open>Infinity\<close>.\<close>

lemma overflow_to_infinity: "js_add (pow2 1023) (pow2 1023) = PosInfinity"
proof -
  have p: "pow2 1024 = 2 * pow2 1023" using pow2_Suc [of 1023] by simp
  have p': "pow2 1025 = 2 * pow2 1024" using pow2_Suc [of 1024] by simp
  have pos: "0 < pow2 1024" by (rule pow2_pos)
  have sum: "pow2 1023 + pow2 1023 = pow2 1024" unfolding p by simp
  have "binade (pow2 1024) = 1024"
    using pos by (intro binade_unique) (simp_all add: p')
  with pos show ?thesis
    unfolding js_add_def sum by (simp add: round_to_double_def Let_def)
qed

subsection \<open>Smooth scrolling\<close>

text \<open>
  Rounding in the normal range, once the binade and the rounded significand are known;
  and the doubles the example clicks compute. Sums and differences of small integers are
  exact.
\<close>

lemma round_to_double_normal:
  assumes "x \<noteq> 0" and "binade x = e" and "- 1022 \<le> e" and "e < 1023"
    and "round_half_even (x / pow2 (e - 52)) = n"
  shows "round_to_double x = Finite (of_int n * pow2 (e - 52))"
  using assms by (simp add: round_to_double_def Let_def max_def)

lemma binade_950: "binade 950 = 9"
  by (simp add: binade_def bit_length.simps)

lemma significand_950: "round_half_even (950 / pow2 (9 - 52)) = 8356288371097600"
  by (simp add: round_half_even_def Let_def pow2_def)

lemma round_to_double_950: "round_to_double 950 = Finite 950"
proof -
  have "round_to_double 950 = Finite (of_int 8356288371097600 * pow2 (9 - 52))"
    by (rule round_to_double_normal [OF _ binade_950 _ _ significand_950]) simp_all
  then show ?thesis by (simp add: pow2_def)
qed

lemma binade_886: "binade 886 = 9"
  by (simp add: binade_def bit_length.simps)

lemma significand_886: "round_half_even (886 / pow2 (9 - 52)) = 7793338417676288"
  by (simp add: round_half_even_def Let_def pow2_def)

lemma round_to_double_886: "round_to_double 886 = Finite 886"
proof -
  have "round_to_double 886 = Finite (of_int 7793338417676288 * pow2 (9 - 52))"
    by (rule round_to_double_normal [OF _ binade_886 _ _ significand_886]) simp_all
  then show ?thesis by (simp add: pow2_def)
qed

lemma about_target_position: "js_sub (js_add 900 50) 64 = Finite 886"
proof -
  have "js_add 900 50 = Finite 950"
    using round_to_double_950 by (simp add: js_add_def)
  then show ?thesis
    using round_to_double_886 by simp
qed

text \<open>
  C4, as the code has it. A click on a link whose href starts with \<open>#\<close> and is longer
  than one character, when \<open>document.querySelector(href)\<close> returns no element (it returns
  \<open>null\<close>, or the href is not a valid selector and the lookup throws): the handler leaves
  the event and the whole state as they were, so \<open>preventDefault\<close> is not called, nothing
  is scrolled and the history is untouched.
\<close>

theorem smooth_scroll_missing_target:
  assumes "currentTarget_href ev = Some href" and "startsWith ''#'' href" and "length href > 1"
    and "\<forall>t. document_querySelector doc href \<noteq> Inr (Some t)"
  shows "snd (handleSmoothScroll doc ev s) = (ev, s)"
  using assms
  by (auto simp: handleSmoothScroll_def split: sum.splits option.splits)

theorem smooth_scroll_missing_target_witness:
  "currentTarget_href \<lparr>currentTarget_href = Some ''#team'', defaultPrevented = False\<rparr> = Some ''#team''
   \<and> startsWith ''#'' ''#team'' \<and> length ''#team'' > 1
   \<and> (\<forall>t. document_querySelector about_doc ''#team'' \<noteq> Inr (Some t))
   \<and> snd (handleSmoothScroll about_doc
            \<lparr>currentTarget_href = Some ''#team'', defaultPrevented = False\<rparr> full_page)
       = (\<lparr>currentTarget_href = Some ''#team'', defaultPrevented = False\<rparr>, full_page)"
proof -
  let ?ev = "\<lparr>currentTarget_href = Some ''#team'', defaultPrevented = False\<rparr>"
  have 1: "currentTarget_href ?ev = Some ''#team''" by simp
  have 2: "startsWith ''#'' ''#team''" by (simp add: startsWith_def)
  have 3: "length ''#team'' > 1" by simp
  have 4: "\<forall>t. document_querySelector about_doc ''#team'' \<noteq> Inr (Some t)"
    by (simp add: about_doc_def)
  from smooth_scroll_missing_target
         [where ev = ?ev and href = "''#team''" and doc = about_doc and s = full_page, OF 1 2 3 4]
       1 2 3 4
  show ?thesis by blast
qed

text \<open>
  C4 as stated fails: the lookup takes the href as a selector, not as an id. No element
  has the id \<open>about p\<close>, yet \<open>#about p\<close> selects the paragraph inside the section and the
  handler prevents the default, scrolls and pushes a history entry.
\<close>

theorem smooth_scroll_missing_id_counterexample:
  "startsWith ''#'' ''#about p'' \<and> length ''#about p'' > 1
   \<and> \<not> target_id_exists descendant_doc ''#about p''
   \<and> defaultPrevented (fst (snd (handleSmoothScroll descendant_doc
         \<lparr>currentTarget_href = Some ''#about p'', defaultPrevented = False\<rparr> full_page)))
   \<and> scrollTo_calls (snd (snd (handleSmoothScroll descendant_doc
         \<lparr>currentTarget_href = Some ''#about p'', defaultPrevented = False\<rparr> full_page)))
       \<noteq> scrollTo_calls full_page
   \<and> history (snd (snd (handleSmoothScroll descendant_doc
         \<lparr>currentTarget_href = Some ''#about p'', defaultPrevented = False\<rparr> full_page)))
       \<noteq> history full_page"
proof -
  have ids: "\<not> target_id_exists descendant_doc ''#about p''"
    by (simp add: target_id_exists_def descendant_doc_def about_section_def about_paragraph_def
        plain_element_def setAttribute_def getAttribute_def)
  have run: "handleSmoothScroll descendant_doc
         \<lparr>currentTarget_href = Some ''#about p'', defaultPrevented = False\<rparr> full_page
       = (None, \<lparr>currentTarget_href = Some ''#about p'', defaultPrevented = True\<rparr>,
          full_page\<lparr>scrollTo_calls := scrollTo_calls full_page @
                [(js_sub (js_add (boundingTop about_paragraph) (scrollY full_page))
                    (headerHeight full_page), ''smooth'')],
             history := pushState ''#about p'' (history full_page)\<rparr>)"
    by (simp add: handleSmoothScroll_def startsWith_def descendant_doc_def)
  have hist: "pushState ''#about p'' (history full_page) \<noteq> history full_page"
    by (simp add: pushState_def full_page_def fresh_history_def)
  show ?thesis
    unfolding run using ids hist by (simp add: startsWith_def)
qed

lemma handleSmoothScroll_found:
  assumes "currentTarget_href ev = Some href" and "startsWith ''#'' href" and "length href > 1"
    and "document_querySelector doc href = Inr (Some t)"
  shows "handleSmoothScroll doc ev s =
           (None, ev\<lparr>defaultPrevented := True\<rparr>,
            s\<lparr>scrollTo_calls := scrollTo_calls s @
                  [(js_sub (js_add (boundingTop t) (scrollY s)) (headerHeight s), ''smooth'')],
              history := pushState href (history s)\<rparr>)"
  using assms by (auto simp: handleSmoothScroll_def)

text \<open>
  C5, as the code has it. A click on an in-page anchor link for which
  \<open>document.querySelector(href)\<close> returns an element: the handler calls \<open>preventDefault\<close>,
  asks for a smooth scroll to the double \<open>(top + pageYOffset) - headerHeight\<close>, each of
  the two operations rounded to the nearest double (\<open>top\<close> the target's viewport top,
  the header height 0 without a header), and pushes one history entry, which becomes
  the current entry and is the link's href; the entry that was current moves onto the
  back list.
\<close>

theorem smooth_scroll_existing_target:
  assumes "currentTarget_href ev = Some href" and "startsWith ''#'' href" and "length href > 1"
    and "document_querySelector doc href = Inr (Some t)"
  shows "handleSmoothScroll doc ev s =
           (None, ev\<lparr>defaultPrevented := True\<rparr>,
            s\<lparr>scrollTo_calls := scrollTo_calls s @
                  [(js_sub (js_add (boundingTop t) (scrollY s)) (headerHeight s), ''smooth'')],
              history := pushState href (history s)\<rparr>)
       \<and> current_entry (history (snd (snd (handleSmoothScroll doc ev s)))) = href
       \<and> back_entries (history (snd (snd (handleSmoothScroll doc ev s))))
           = back_entries (history s) @ [current_entry (history s)]"
  unfolding handleSmoothScroll_found [where ev = ev and href = href and doc = doc and t = t and s = s, OF assms]
  by (simp add: pushState_def)

theorem smooth_scroll_existing_target_witness:
  "currentTarget_href \<lparr>currentTarget_href = Some ''#about'', defaultPrevented = False\<rparr> = Some ''#about''
   \<and> startsWith ''#'' ''#about'' \<and> length ''#about'' > 1
   \<and> document_querySelector about_doc ''#about'' = Inr (Some about_section)
   \<and> handleSmoothScroll about_doc
        \<lparr>currentTarget_href = Some ''#about'', defaultPrevented = False\<rparr> (full_page\<lparr>scrollY := 50\<rparr>)
      = (None, \<lparr>currentTarget_href = Some ''#about'', defaultPrevented = True\<rparr>,
         full_page\<lparr>scrollY := 50, scrollTo_calls := [(Finite 886, ''smooth'')],
           history := \<lparr>back_entries = [''/''], current_entry = ''#about'', forward_entries = []\<rparr>\<rparr>)"
proof -
  let ?ev = "\<lparr>currentTarget_href = Some ''#about'', defaultPrevented = False\<rparr>"
  let ?s = "full_page\<lparr>scrollY := 50\<rparr>"
  have 1: "currentTarget_href ?ev = Some ''#about''" by simp
  have 2: "startsWith ''#'' ''#about''" by (simp add: startsWith_def)
  have 3: "length ''#about'' > 1" by simp
  have 4: "document_querySelector about_doc ''#about'' = Inr (Some about_section)"
    by (simp add: about_doc_def)
  note t = conjunct1 [OF smooth_scroll_existing_target
         [where ev = ?ev and href = "''#about''" and doc = about_doc and s = ?s, OF 1 2 3 4]]
  have top: "boundingTop about_section = 900"
    by (simp add: about_section_def setAttribute_def)
  have hh: "headerHeight ?s = 64"
    by (simp add: headerHeight_def full_page_def plain_element_def)
  have y: "scrollY ?s = 50" by simp
  have 5: "handleSmoothScroll about_doc ?ev ?s
      = (None, \<lparr>currentTarget_href = Some ''#about'', defaultPrevented = True\<rparr>,
         full_page\<lparr>scrollY := 50, scrollTo_calls := [(Finite 886, ''smooth'')],
           history := \<lparr>back_entries = [''/''], current_entry = ''#about'', forward_entries = []\<rparr>\<rparr>)"
    unfolding t top hh y about_target_position
    by (simp add: full_page_def pushState_def fresh_history_def)
  from 1 2 3 4 5 show ?thesis by blast
qed

text \<open>
  C5 as stated fails: the section of id \<open>1abc\<close> exists, and a click on the link to
  \<open>#1abc\<close> makes the lookup throw, so the handler ends with the exception before
  \<open>preventDefault\<close>: nothing is prevented, scrolled or pushed.
\<close>

theorem smooth_scroll_existing_id_counterexample:
  "startsWith ''#'' ''#1abc'' \<and> length ''#1abc'' > 1
   \<and> target_id_exists digit_id_doc ''#1abc''
   \<and> handleSmoothScroll digit_id_doc
        \<lparr>currentTarget_href = Some ''#1abc'', defaultPrevented = False\<rparr> full_page
      = (Some SyntaxError, \<lparr>currentTarget_href = Some ''#1abc'', defaultPrevented = False\<rparr>,
         full_page)"
  by (simp add: startsWith_def target_id_exists_def digit_id_doc_def digit_section_def
      setAttribute_def getAttribute_def handleSmoothScroll_def)

text \<open>Every click of a run adds one entry: \<open>n\<close> clicks with targets, \<open>n\<close> more entries.\<close>

lemma history_entry_per_click:
  assumes "\<forall>ev\<in>set evs. \<exists>href t. currentTarget_href ev = Some href \<and> startsWith ''#'' href
              \<and> length href > 1 \<and> document_querySelector doc href = Inr (Some t)"
  shows "length (back_entries (history (click_links doc evs s)))
           = length (back_entries (history s)) + length evs"
  using assms
proof (induction evs arbitrary: s)
  case Nil
  show ?case by (simp add: click_links_def)
next
  case (Cons ev evs)
  then obtain href t where h: "currentTarget_href ev = Some href" "startsWith ''#'' href"
      "length href > 1" "document_querySelector doc href = Inr (Some t)"
    by auto
  have step: "length (back_entries (history (snd (snd (handleSmoothScroll doc ev s)))))
      = Suc (length (back_entries (history s)))"
    unfolding handleSmoothScroll_found [where ev = ev and href = href and doc = doc and t = t and s = s, OF h] by (simp add: pushState_def)
  have "click_links doc (ev # evs) s = click_links doc evs (snd (snd (handleSmoothScroll doc ev s)))"
    by (simp add: click_links_def)
  then show ?case using Cons step by simp
qed

text \<open>
  With fractional offsets the rounding shows. For the doubles nearest to 100.1 and 200.2
  and a header of 64 pixels, the sum lies halfway between two doubles and goes to the
  even one; the handler asks for 236.29999999999995 (as JavaScript prints that double),
  which is not the exact value of \<open>top + pageYOffset - headerHeight\<close>.
\<close>

lemma binade_fractional_sum: "binade (10565866938276249 / 35184372088832) = 8"
  by (simp add: binade_def bit_length.simps)

lemma significand_fractional_sum:
  "round_half_even (10565866938276249 / 35184372088832 / pow2 (8 - 52)) = 5282933469138124"
  by (simp add: round_half_even_def Let_def pow2_def)

lemma binade_fractional_difference: "binade (1039258390573875 / 4398046511104) = 7"
  by (simp add: binade_def bit_length.simps)

lemma significand_fractional_difference:
  "round_half_even (1039258390573875 / 4398046511104 / pow2 (7 - 52)) = 8314067124591000"
  by (simp add: round_half_even_def Let_def pow2_def)

lemma fractional_target_position:
  "js_sub (js_add (3521955646092083 / 35184372088832) (3521955646092083 / 17592186044416)) 64
     = Finite (1039258390573875 / 4398046511104)
   \<and> (3521955646092083 / 35184372088832 + 3521955646092083 / 17592186044416 - 64 :: real)
       \<noteq> 1039258390573875 / 4398046511104"
proof -
  have sum: "(3521955646092083 / 35184372088832 + 3521955646092083 / 17592186044416 :: real)
      = 10565866938276249 / 35184372088832"
    by simp
  have "round_to_double (10565866938276249 / 35184372088832)
      = Finite (of_int 5282933469138124 * pow2 (8 - 52))"
    by (rule round_to_double_normal [OF _ binade_fractional_sum _ _ significand_fractional_sum])
       simp_all
  then have add: "js_add (3521955646092083 / 35184372088832) (3521955646092083 / 17592186044416)
      = Finite (1320733367284531 / 4398046511104)"
    unfolding js_add_def sum by (simp add: pow2_def)
  have diff: "(1320733367284531 / 4398046511104 - 64 :: real) = 1039258390573875 / 4398046511104"
    by simp
  have "round_to_double (1039258390573875 / 4398046511104)
      = Finite (of_int 8314067124591000 * pow2 (7 - 52))"
    by (rule round_to_double_normal
          [OF _ binade_fractional_difference _ _ significand_fractional_difference])
       simp_all
  then have sub: "js_sub (Finite (1320733367284531 / 4398046511104)) 64
      = Finite (1039258390573875 / 4398046511104)"
    unfolding js_sub.simps diff by (simp add: pow2_def)
  have exact: "(3521955646092083 / 35184372088832 + 3521955646092083 / 17592186044416 - 64 :: real)
       \<noteq> 1039258390573875 / 4398046511104"
    by simp
  from add sub exact show ?thesis by simp
qed

subsection \<open>Stagger delay\<close>

text \<open>
  C3, at a page where the claim and the code part. The second section is sibling number 1
  among the matching children of its parent, so the claim gives a delay of 100 ms;
  \<open>querySelectorAll\<close> on the parent also returns the card nested in the first section,
  so \<open>getStaggerDelay\<close> gives index 2 and \<open>handleIntersection\<close> sets a timeout of 200 ms
  (and stops observing the element).
\<close>

theorem stagger_delay_nested:
  "getStaggerDelay nested_page 3 = Inr 200
   \<and> spec_stagger_delay nested_page 3 = Inr 100
   \<and> handleIntersection [\<lparr>isIntersecting = True, target = 3\<rparr>] nested_animations
       = (None, \<lparr>dom = nested_page, observed = [1, 2], timeouts = [(200, 3)]\<rparr>)"
  by (simp add: getStaggerDelay_def spec_stagger_delay_def parentElement_def nested_page_def
      querySelectorAll_def matches_class_def nested_animations_def)

text \<open>
  When no child of the parent holds a matching descendant, the list the code searches is
  the list of matching siblings and the two delays agree.
\<close>

lemma filter_descendants_list_flat:
  assumes "\<forall>c\<in>set ch. filter P (descendants c) = []"
  shows "filter P (descendants_list ch) = filter P ch"
  using assms by (induction ch) simp_all

lemma stagger_delay_flat:
  assumes "parentElement tree el = Some p"
    and "\<forall>c\<in>set (childNodes p). querySelectorAll ''fade-in'' c = []"
  shows "getStaggerDelay tree el = spec_stagger_delay tree el"
proof -
  obtain i cs tx ch where p: "p = Node i cs tx ch" by (cases p)
  from assms(2) have "filter (matches_class ''fade-in'') (descendants_list ch)
      = filter (matches_class ''fade-in'') ch"
    unfolding p by (intro filter_descendants_list_flat) (simp add: querySelectorAll_def)
  then show ?thesis
    using assms(1) by (simp add: getStaggerDelay_def spec_stagger_delay_def querySelectorAll_def p)
qed

text \<open>
  \<open>handleIntersection\<close> never adds a target, and after a run that returns normally no
  intersecting entry's target is observed.
\<close>

lemma handleIntersection_observed_subset:
  "handleIntersection entries s = (r, s') \<Longrightarrow> set (observed s') \<subseteq> set (observed s)"
proof (induction entries arbitrary: s)
  case Nil
  then show ?case by simp
next
  case (Cons e es)
  then show ?case
    by (fastforce split: if_splits sum.splits)
qed

lemma handleIntersection_unobserves:
  "handleIntersection entries s = (None, s') \<Longrightarrow> e \<in> set entries \<Longrightarrow> isIntersecting e
     \<Longrightarrow> target e \<notin> set (observed s')"
proof (induction entries arbitrary: s)
  case Nil
  then show ?case by simp
next
  case (Cons x xs)
  show ?case
  proof (cases "isIntersecting x")
    case False
    with Cons show ?thesis by auto
  next
    case True
    with Cons.prems(1) obtain d where d: "getStaggerDelay (dom s) (target x) = Inr d"
      by (auto split: sum.splits)
    let ?s1 = "s\<lparr>timeouts := timeouts s @ [(d, target x)],
                  observed := removeAll (target x) (observed s)\<rparr>"
    from Cons.prems(1) True d have run: "handleIntersection xs ?s1 = (None, s')" by simp
    show ?thesis
    proof (cases "e = x")
      case True
      from handleIntersection_observed_subset [OF run] have "target x \<notin> set (observed s')"
        by auto
      with True show ?thesis by simp
    next
      case False
      with Cons.prems(2) have "e \<in> set xs" by simp
      from Cons.IH [OF run this Cons.prems(3)] show ?thesis .
    qed
  qed
qed

subsection \<open>Active navigation link\<close>

lemma setActiveNavLink_href:
  "map (getAttribute ''href'') (setActiveNavLink sid links) = map (getAttribute ''href'') links"
  by (simp add: setActiveNavLink_def getAttribute_def classList_add_def classList_remove_def)

lemma setActiveNavLink_active:
  "map is_active (setActiveNavLink sid links)
     = map (\<lambda>l. getAttribute ''href'' l = Some (''#'' @ template_string sid)) links"
  by (simp add: setActiveNavLink_def is_active_def classList_contains_def classList_add_def
      classList_remove_def)

lemma callback_snoc:
  "activeNavigationCallback (es @ [e]) links =
     (if isIntersecting e
      then setActiveNavLink (getAttribute ''id'' (target e)) (activeNavigationCallback es links)
      else activeNavigationCallback es links)"
  by (simp add: activeNavigationCallback_def)

lemma callback_href:
  "map (getAttribute ''href'') (activeNavigationCallback es links) = map (getAttribute ''href'') links"
  by (induction es rule: rev_induct)
     (simp_all add: callback_snoc setActiveNavLink_href, simp add: activeNavigationCallback_def)

lemma last_intersecting_snoc:
  "last_intersecting (es @ [e]) = (if isIntersecting e then Some (target e) else last_intersecting es)"
  by (simp add: last_intersecting_def)

lemma map_pred_href:
  "map (\<lambda>l. getAttribute ''href'' l = h) xs = map (\<lambda>a. a = h) (map (getAttribute ''href'') xs)"
  by simp

lemma callback_active:
  "map is_active (activeNavigationCallback es links) =
     (case last_intersecting es of
        None \<Rightarrow> map is_active links
      | Some sec \<Rightarrow>
          map (\<lambda>l. getAttribute ''href'' l = Some (''#'' @ template_string (getAttribute ''id'' sec)))
            links)"
proof (induction es rule: rev_induct)
  case Nil
  show ?case by (simp add: activeNavigationCallback_def last_intersecting_def)
next
  case (snoc e es)
  show ?case
  proof (cases "isIntersecting e")
    case True
    have "map is_active (activeNavigationCallback (es @ [e]) links)
        = map (\<lambda>a. a = Some (''#'' @ template_string (getAttribute ''id'' (target e))))
            (map (getAttribute ''href'') (activeNavigationCallback es links))"
      using True by (simp only: callback_snoc if_True setActiveNavLink_active map_pred_href)
    also have "\<dots> = map (\<lambda>l. getAttribute ''href'' l
                        = Some (''#'' @ template_string (getAttribute ''id'' (target e)))) links"
      unfolding callback_href by simp
    finally show ?thesis using True by (simp add: last_intersecting_snoc)
  next
    case False
    with snoc show ?thesis by (simp add: callback_snoc last_intersecting_snoc)
  qed
qed

lemma distinct_filter_le_1:
  "distinct (map f xs) \<Longrightarrow> length (filter (\<lambda>x. f x = a) xs) \<le> 1"
  by (induction xs) (auto simp: filter_empty_conv image_iff)

lemma length_filter_via_map:
  "map P xs = map Q ys \<Longrightarrow> length (filter P xs) = length (filter Q ys)"
proof (induction xs arbitrary: ys)
  case Nil
  then show ?case by simp
next
  case (Cons x xs)
  then obtain y ys' where "ys = y # ys'" by (cases ys) auto
  with Cons show ?case by auto
qed

text \<open>
  C9, as the code has it. An update is a full replace: afterwards a link carries the
  active marker exactly when its href is \<open>#\<close> followed by the section's id. After a batch
  of entries the links are marked for the last intersecting entry (a batch without one
  changes no marker). So at most one link is active after an update when the hrefs of
  the navigation links are pairwise distinct.
\<close>

theorem active_link_full_replace:
  "map is_active (setActiveNavLink sid links)
     = map (\<lambda>l. getAttribute ''href'' l = Some (''#'' @ template_string sid)) links
   \<and> map is_active (activeNavigationCallback entries links) =
     (case last_intersecting entries of
        None \<Rightarrow> map is_active links
      | Some sec \<Rightarrow>
          map (\<lambda>l. getAttribute ''href'' l = Some (''#'' @ template_string (getAttribute ''id'' sec)))
            links)
   \<and> (distinct (map (getAttribute ''href'') links) \<longrightarrow>
        length (filter is_active (setActiveNavLink sid links)) \<le> 1
        \<and> (last_intersecting entries \<noteq> None \<longrightarrow>
             length (filter is_active (activeNavigationCallback entries links)) \<le> 1))"
proof -
  have one: "length (filter is_active (setActiveNavLink sid links)) \<le> 1"
    if d: "distinct (map (getAttribute ''href'') links)"
    using length_filter_via_map [OF setActiveNavLink_active, of sid links]
      distinct_filter_le_1 [OF d] by simp
  have batch: "length (filter is_active (activeNavigationCallback entries links)) \<le> 1"
    if d: "distinct (map (getAttribute ''href'') links)" and l: "last_intersecting entries \<noteq> None"
  proof -
    from l obtain sec where sec: "last_intersecting entries = Some sec" by auto
    have "map is_active (activeNavigationCallback entries links)
        = map (\<lambda>l. getAttribute ''href'' l = Some (''#'' @ template_string (getAttribute ''id'' sec)))
            links"
      using callback_active [of entries links] sec by simp
    from length_filter_via_map [OF this] distinct_filter_le_1 [OF d] show ?thesis by simp
  qed
  from one batch show ?thesis
    by (simp only: setActiveNavLink_active callback_active) blast
qed

theorem active_link_full_replace_witness:
  "distinct (map (getAttribute ''href'') distinct_menu)
   \<and> last_intersecting [\<lparr>isIntersecting = True, target = section_element ''services''\<rparr>,
                          \<lparr>isIntersecting = True, target = section_element ''about''\<rparr>] \<noteq> None
   \<and> map is_active (activeNavigationCallback
         [\<lparr>isIntersecting = True, target = section_element ''services''\<rparr>,
          \<lparr>isIntersecting = True, target = section_element ''about''\<rparr>] distinct_menu)
       = [True, False]
   \<and> length (filter is_active (activeNavigationCallback
         [\<lparr>isIntersecting = True, target = section_element ''services''\<rparr>,
          \<lparr>isIntersecting = True, target = section_element ''about''\<rparr>] distinct_menu)) \<le> 1"
proof -
  let ?es = "[\<lparr>isIntersecting = True, target = section_element ''services''\<rparr>,
              \<lparr>isIntersecting = True, target = section_element ''about''\<rparr>]"
  have d: "distinct (map (getAttribute ''href'') distinct_menu)"
    by (simp add: distinct_menu_def nav_link_def setAttribute_def getAttribute_def
        classList_add_def plain_element_def)
  have l: "last_intersecting ?es = Some (section_element ''about'')"
    by (simp add: last_intersecting_def)
  note t = active_link_full_replace [where entries = ?es and links = distinct_menu and sid = None]
  from t l have a: "map is_active (activeNavigationCallback ?es distinct_menu)
       = map (\<lambda>l. getAttribute ''href'' l
            = Some (''#'' @ template_string (getAttribute ''id'' (section_element ''about''))))
           distinct_menu"
    by simp
  have a': "map is_active (activeNavigationCallback ?es distinct_menu) = [True, False]"
    unfolding a
    by (simp add: distinct_menu_def nav_link_def section_element_def setAttribute_def
        getAttribute_def classList_add_def plain_element_def template_string_def)
  from t d l have c: "length (filter is_active (activeNavigationCallback ?es distinct_menu)) \<le> 1"
    by simp
  from d l a' c show ?thesis by simp
qed

text \<open>
  C9 as stated fails when two navigation links share an href: both are marked.
\<close>

theorem active_link_counterexample:
  "\<not> length (filter is_active
     (activeNavigationCallback [\<lparr>isIntersecting = True, target = section_element ''about''\<rparr>]
        two_menus)) \<le> 1"
  by (simp add: activeNavigationCallback_def setActiveNavLink_def two_menus_def nav_link_def
      section_element_def setAttribute_def getAttribute_def plain_element_def is_active_def
      classList_contains_def classList_add_def classList_remove_def template_string_def)

subsection \<open>Form submission\<close>

lemma submitBtn_showMessage: "submitBtn (showMessage f ty msg) = submitBtn f"
  by (simp add: showMessage_def Let_def split: option.splits)

lemma submitBtn_form_reset: "submitBtn (form_reset f) = submitBtn f"
  by (simp add: form_reset_def)

lemma submitBtn_settle:
  "submitBtn (handleSubmit_settle oc f)
     = map_option (\<lambda>b. b\<lparr>disabled := False, textContent := ''Submit''\<rparr>) (submitBtn f)"
  by (cases oc; cases "submitBtn f")
     (simp_all add: handleSubmit_settle_def submitBtn_showMessage submitBtn_form_reset)



text \<open>
  When the selector finds no button (the submit control is a \<open>button\<close> without a type,
  or an \<open>input\<close>), the handler has no control to disable or relabel.
\<close>

lemma submit_button_unmatched:
  assumes "submitBtn f = None"
  shows "submitBtn (handleSubmit_begin f) = None \<and> submitBtn (handleSubmit_settle oc f) = None
       \<and> submitBtn (handleSubmit oc f) = None"
  using assms by (simp add: submitBtn_settle handleSubmit_def handleSubmit_begin_def)


subsection \<open>Inline form messages\<close>

text \<open>
  Removing an element never adds a match to a subtree, and removing a matching descendant
  takes at least one match away.
\<close>

lemma matches_class_remove_node [simp]:
  "matches_class c (remove_node i n) = matches_class c n"
  by (cases n) (simp add: matches_class_def)











text \<open>
  Two submissions in a row, both pending, then both settling: only the message of the
  second one to settle is in the form.
\<close>

lemma two_submissions_one_message:
  "map node_text (querySelectorAll ''form-message'' (content (fold form_step
        [SubmitEvent, SubmitEvent, OperationSettles Resolved, OperationSettles Rejected]
        contact_form)))
   = [''Something went wrong. Please try again.'']"
  by (simp add: handleSubmit_begin_def handleSubmit_settle_def showMessage_def form_reset_def
      contact_form_def querySelector_def querySelectorAll_def matches_class_def Let_def)

end
